theory Spec2Isabelle
  imports Complex_Main "HOL-Library.Multiset" "HOL-Library.List_Lexorder" "HOL-Library.Char_ord"
begin

section \<open>Data model of the dashboard script (Dashboard/app.py)\<close>

text \<open>
  The script is one linear pandas program. Data frames are modelled as lists of records
  (row order matters to pandas), a null cell (NaN) as \<open>None\<close>, a raised Python exception as
  the left injection of a sum type. Identifiers (order, customer, product ids, category and
  state labels) are opaque keys of which the script uses only equality and the sort order
  of \<open>groupby\<close>; they are natural numbers here. Prices are decimal amounts, held exactly as
  rationals. A timestamp is the number of seconds since 1970-01-01 00:00:00, the quantity
  pandas stores (at nanosecond resolution) in a datetime64 column.
\<close>

datatype py_error = NameError | IndexError | ValueError

text \<open>Sequencing: an exception raised by a statement ends the run with that exception.\<close>

definition and_then :: "py_error + 'a \<Rightarrow> ('a \<Rightarrow> py_error + 'b) \<Rightarrow> py_error + 'b" where
  "and_then r k = (case r of Inl e \<Rightarrow> Inl e | Inr v \<Rightarrow> k v)"

type_synonym timestamp = int
type_synonym date = int

record customer =
  c_customer_id :: nat
  c_customer_unique_id :: nat
  c_customer_state :: nat

record order =
  o_order_id :: nat
  o_customer_id :: nat
  o_order_purchase_timestamp :: timestamp

record order_item =
  i_order_id :: nat
  i_product_id :: nat
  i_price :: rat

record product =
  p_product_id :: nat
  p_product_category_name :: "nat option"

text \<open>A row of \<open>orders_full\<close>: the columns of the three left merges plus \<open>revenue\<close>.\<close>

record full_row =
  order_id :: nat
  customer_id :: nat
  order_purchase_timestamp :: timestamp
  customer_unique_id :: "nat option"
  customer_state :: "nat option"
  product_id :: "nat option"
  price :: "rat option"
  product_category_name :: "nat option"
  revenue :: "rat option"

subsection \<open>Calendar accessors of a timestamp (\<open>.dt.date\<close>, \<open>.dt.hour\<close>, \<open>.dt.dayofweek\<close>)\<close>

definition dt_date :: "timestamp \<Rightarrow> date" where
  "dt_date t = t div 86400"

definition dt_hour :: "timestamp \<Rightarrow> int" where
  "dt_hour t = (t mod 86400) div 3600"

text \<open>Monday is 0 and Sunday is 6; day 0 (1970-01-01) was a Thursday.\<close>

definition dt_dayofweek :: "timestamp \<Rightarrow> int" where
  "dt_dayofweek t = (dt_date t + 3) mod 7"

definition weekday_names :: "string list" where
  "weekday_names =
     [''Monday'', ''Tuesday'', ''Wednesday'', ''Thursday'', ''Friday'', ''Saturday'', ''Sunday'']"

definition dt_day_name :: "timestamp \<Rightarrow> string" where
  "dt_day_name t = weekday_names ! nat (dt_dayofweek t)"

text \<open>
  Day number of a calendar date of the proleptic Gregorian calendar, and back; used for the
  monthly period of a timestamp and to write calendar dates in examples.
\<close>

definition days_from_civil :: "int \<Rightarrow> int \<Rightarrow> int \<Rightarrow> date" where
  "days_from_civil y m d =
     (let y' = (if m \<le> 2 then y - 1 else y);
          era = y' div 400;
          yoe = y' - era * 400;
          doy = (153 * (if m > 2 then m - 3 else m + 9) + 2) div 5 + d - 1;
          doe = yoe * 365 + yoe div 4 - yoe div 100 + doy
      in era * 146097 + doe - 719468)"

definition civil_from_days :: "date \<Rightarrow> int \<times> int \<times> int" where
  "civil_from_days z0 =
     (let z = z0 + 719468;
          era = z div 146097;
          doe = z - era * 146097;
          yoe = (doe - doe div 1460 + doe div 36524 - doe div 146096) div 365;
          doy = doe - (365 * yoe + yoe div 4 - yoe div 100);
          mp = (5 * doy + 2) div 153;
          d = doy - (153 * mp + 2) div 5 + 1;
          m = (if mp < 10 then mp + 3 else mp - 9);
          y = yoe + era * 400 + (if m \<le> 2 then 1 else 0)
      in (y, m, d))"

text \<open>\<open>.dt.to_period('M')\<close>: the (year, month) pair, ordered chronologically.\<close>

definition dt_period_M :: "timestamp \<Rightarrow> int \<times> int" where
  "dt_period_M t = (case civil_from_days (dt_date t) of (y, m, d) \<Rightarrow> (y, m))"

subsection \<open>Left merges building \<open>orders_full\<close> (lines 42-52)\<close>

text \<open>
  \<open>left.merge(right, how='left')\<close>: every left row, in order, paired with each matching right
  row in the right table's order, or once with nulls when nothing matches.
\<close>

definition left_merge ::
  "('l \<Rightarrow> 'r \<Rightarrow> bool) \<Rightarrow> 'l list \<Rightarrow> 'r list \<Rightarrow> ('l \<times> 'r option) list" where
  "left_merge match ls rs =
     concat (map (\<lambda>l. case filter (match l) rs of
                         [] \<Rightarrow> [(l, None)]
                       | ms \<Rightarrow> map (\<lambda>r. (l, Some r)) ms) ls)"

definition mk_full_row ::
  "((order \<times> customer option) \<times> order_item option) \<times> product option \<Rightarrow> full_row" where
  "mk_full_row x = (case x of (((ord, c), i), p) \<Rightarrow>
     \<lparr> order_id = o_order_id ord,
       customer_id = o_customer_id ord,
       order_purchase_timestamp = o_order_purchase_timestamp ord,
       customer_unique_id = map_option c_customer_unique_id c,
       customer_state = map_option c_customer_state c,
       product_id = map_option i_product_id i,
       price = map_option i_price i,
       product_category_name = Option.bind p p_product_category_name,
       revenue = map_option i_price i \<rparr>)"

definition build_orders_full ::
  "customer list \<Rightarrow> order list \<Rightarrow> order_item list \<Rightarrow> product list \<Rightarrow> full_row list" where
  "build_orders_full customers orders order_items products =
     (let orders_customers =
            left_merge (\<lambda>ord c. o_customer_id ord = c_customer_id c) orders customers;
          with_items =
            left_merge (\<lambda>oc i. o_order_id (fst oc) = i_order_id i) orders_customers order_items;
          with_products =
            left_merge (\<lambda>oci p. map_option i_product_id (snd oci) = Some (p_product_id p))
              with_items products
      in map mk_full_row with_products)"

subsection \<open>Time-window filter (lines 82-85)\<close>

text \<open>
  Two boolean masks over the timestamp column, combined with \<open>&\<close>, select the rows.
\<close>

definition select_mask :: "'a list \<Rightarrow> bool list \<Rightarrow> 'a list" where
  "select_mask rows keep = map fst (filter snd (zip rows keep))"

definition filtered_orders :: "full_row list \<Rightarrow> date \<Rightarrow> date \<Rightarrow> full_row list" where
  "filtered_orders orders_full start_date end_date =
     (let ge_start = map (\<lambda>r. dt_date (order_purchase_timestamp r) \<ge> start_date) orders_full;
          le_end = map (\<lambda>r. dt_date (order_purchase_timestamp r) \<le> end_date) orders_full
      in select_mask orders_full (map (\<lambda>(a, b). a \<and> b) (zip ge_start le_end)))"

section \<open>The pandas operations the script uses\<close>

text \<open>
  \<open>groupby(key)\<close>: one group per distinct key, keys in ascending order, rows with a null key
  dropped; inside a group the rows keep their order.
\<close>

definition group_keys :: "('a \<Rightarrow> 'k::linorder option) \<Rightarrow> 'a list \<Rightarrow> 'k list" where
  "group_keys key rows = sort (remdups (List.map_filter key rows))"

definition group_of :: "('a \<Rightarrow> 'k option) \<Rightarrow> 'a list \<Rightarrow> 'k \<Rightarrow> 'a list" where
  "group_of key rows k = filter (\<lambda>r. key r = Some k) rows"

text \<open>
  \<open>sum\<close> of a column skips nulls (an empty or all-null sum is 0); \<open>fillna\<close>; \<open>nunique\<close>
  counts the distinct non-null values. \<open>col_sum\<close> adds exactly. pandas adds float64 values and
  rounds after each addition, so \<open>col_sum\<close> is the script's sum only where no addition rounds,
  as with the whole-number amounts of the example below; nothing that regroups additions
  carries over from \<open>col_sum\<close> to float64 sums of arbitrary amounts.
\<close>

definition fillna :: "'v \<Rightarrow> 'v option \<Rightarrow> 'v" where
  "fillna d v = (case v of None \<Rightarrow> d | Some x \<Rightarrow> x)"

definition col_sum :: "rat option list \<Rightarrow> rat" where
  "col_sum col = sum_list (List.map_filter id col)"

definition nunique :: "'v option list \<Rightarrow> nat" where
  "nunique col = length (remdups (List.map_filter id col))"

text \<open>\<open>groupby(key).size()\<close> as a series: (label, count) pairs in key order; \<open>reindex\<close> looks
  every new label up and leaves a null where the series has no such label.\<close>

definition groupby_size :: "('a \<Rightarrow> 'k::linorder option) \<Rightarrow> 'a list \<Rightarrow> ('k \<times> nat) list" where
  "groupby_size key rows = map (\<lambda>k. (k, length (group_of key rows k))) (group_keys key rows)"

definition reindex :: "'k list \<Rightarrow> ('k \<times> 'v) list \<Rightarrow> ('k \<times> 'v option) list" where
  "reindex labels series = map (\<lambda>k. (k, map_of series k)) labels"

text \<open>
  \<open>df.loc[df[col].idxmax()]\<close>: the first row holding the largest non-null value. On a column
  with no non-null value \<open>idxmax\<close> raises \<open>ValueError\<close> (pandas before 3.0 returns NaN there
  and the \<open>.loc\<close> lookup fails instead).
\<close>

definition loc_idxmax :: "('k \<times> nat option) list \<Rightarrow> py_error + ('k \<times> nat)" where
  "loc_idxmax series =
     (case List.map_filter snd series of
        [] \<Rightarrow> Inl ValueError
      | v # vs \<Rightarrow>
          (case find (\<lambda>r. snd r = Some (Max (set (v # vs)))) series of
             None \<Rightarrow> Inl ValueError
           | Some r \<Rightarrow> Inr (fst r, Max (set (v # vs)))))"

text \<open>\<open>.values[0]\<close> and \<open>.iloc[0]\<close>: the first element, \<open>IndexError\<close> on an empty selection.\<close>

definition values0 :: "'v list \<Rightarrow> py_error + 'v" where
  "values0 vs = (case vs of [] \<Rightarrow> Inl IndexError | v # _ \<Rightarrow> Inr v)"

text \<open>
  Division of float columns: a zero divisor gives NaN or an infinity, never an exception;
  \<open>None\<close> stands for such a non-finite cell.
\<close>

definition fdiv :: "rat \<Rightarrow> rat \<Rightarrow> rat option" where
  "fdiv a b = (if b = 0 then None else Some (a / b))"

text \<open>
  \<open>rank(method='first')\<close>: the position of each value in ascending order, counted from 1,
  equal values ranked in their order of appearance. Element \<open>i\<close> is preceded by the strictly
  smaller values and by the equal values that appear before it.
\<close>

definition ranked_before :: "'v::linorder list \<Rightarrow> nat \<Rightarrow> nat \<Rightarrow> bool" where
  "ranked_before col j i \<longleftrightarrow> col ! j < col ! i \<or> (col ! j = col ! i \<and> j < i)"

definition rank_first :: "'v::linorder list \<Rightarrow> nat list" where
  "rank_first col =
     map (\<lambda>i. Suc (length (filter (\<lambda>j. ranked_before col j i) [0..<length col])))
       [0..<length col]"

text \<open>
  \<open>Series.quantile(q)\<close> with linear interpolation: position \<open>q * (n - 1)\<close> in the sorted
  values, interpolated between its two neighbours. Only used on a non-empty series with
  \<open>0 \<le> q \<le> 1\<close>.
\<close>

definition quantile :: "rat list \<Rightarrow> rat \<Rightarrow> rat" where
  "quantile xs q =
     (let s = sort xs;
          pos = q * of_nat (length xs - 1);
          lo = nat \<lfloor>pos\<rfloor>;
          hi = min (lo + 1) (length xs - 1)
      in s ! lo + (s ! hi - s ! lo) * (pos - of_nat lo))"

text \<open>
  \<open>pd.qcut(x, q, labels=False)\<close>: the bin edges are the quantiles \<open>0, 1/q, ..., 1\<close> of \<open>x\<close>;
  edges that are not pairwise distinct raise \<open>ValueError\<close> (\<open>duplicates='raise'\<close>), which is also
  what an empty \<open>x\<close> ends in, its quantiles all being NaN. A value gets
  \<open>searchsorted(edges, value, side='left') - 1\<close>, the number of edges strictly below it minus
  one; values equal to the lowest edge are put into bin 0 (\<open>include_lowest\<close>). The edges span
  minimum to maximum of \<open>x\<close>, so no value falls outside.
\<close>

definition qcut :: "rat list \<Rightarrow> nat \<Rightarrow> py_error + int list" where
  "qcut x q =
     (if x = [] then Inl ValueError
      else let bins = map (\<lambda>k. quantile x (of_nat k / of_nat q)) [0..<q + 1]
           in if \<not> distinct bins then Inl ValueError
              else Inr (map (\<lambda>v. int (if v = bins ! 0 then 1
                                          else length (filter (\<lambda>b. b < v) bins)) - 1) x))"

text \<open>\<open>pd.qcut(col.rank(method='first'), 4, labels=False) + 1\<close> (lines 157-159).\<close>

definition rank_score :: "'v::linorder list \<Rightarrow> py_error + int list" where
  "rank_score col =
     and_then (qcut (map of_nat (rank_first col)) 4) (\<lambda>labels. Inr (map (\<lambda>b. b + 1) labels))"

section \<open>RFM segmentation (tab 1)\<close>

datatype segment =
  Champions | Loyal_Customers | Potential_Loyalists | Need_Attention | Lost_Customers

record rfm_row =
  rfm_customer :: nat
  recency :: int
  frequency :: nat
  monetary :: rat
  R_score :: int
  F_score :: int
  M_score :: int

text \<open>\<open>rfm_segment\<close> (lines 161-171).\<close>

definition rfm_segment :: "rfm_row \<Rightarrow> segment" where
  "rfm_segment row =
     (if R_score row \<ge> 3 \<and> F_score row \<ge> 3 \<and> M_score row \<ge> 3 then Champions
      else if R_score row \<ge> 3 \<and> F_score row \<ge> 2 then Loyal_Customers
      else if R_score row \<ge> 3 then Potential_Loyalists
      else if R_score row = 2 then Need_Attention
      else Lost_Customers)"

text \<open>
  The priority table of the specification (section 4.4), written as an ordered list of
  guarded outcomes over the three scores; the first guard that holds decides.
\<close>

definition spec_priority_table :: "((int \<Rightarrow> int \<Rightarrow> int \<Rightarrow> bool) \<times> segment) list" where
  "spec_priority_table =
     [(\<lambda>r f m. r \<ge> 3 \<and> f \<ge> 3 \<and> m \<ge> 3, Champions),
      (\<lambda>r f m. r \<ge> 3 \<and> f \<ge> 2, Loyal_Customers),
      (\<lambda>r f m. r \<ge> 3, Potential_Loyalists),
      (\<lambda>r f m. r = 2, Need_Attention)]"

fun first_match ::
  "((int \<Rightarrow> int \<Rightarrow> int \<Rightarrow> bool) \<times> segment) list \<Rightarrow> int \<Rightarrow> int \<Rightarrow> int \<Rightarrow> segment" where
  "first_match [] r f m = Lost_Customers"
| "first_match ((g, s) # rest) r f m = (if g r f m then s else first_match rest r f m)"

definition scored :: "int \<Rightarrow> int \<Rightarrow> int \<Rightarrow> rfm_row" where
  "scored r f m =
     \<lparr> rfm_customer = 0, recency = 0, frequency = 0, monetary = 0,
       R_score = r, F_score = f, M_score = m \<rparr>"

subsection \<open>The KPI block's re-merge (lines 98-101)\<close>

text \<open>
  On a non-empty window the script rebinds \<open>order_items\<close> to
  \<open>filtered_orders.merge(order_items, on='order_id', how='left')\<close>. Both tables have
  \<open>product_id\<close> and \<open>price\<close>: the left component of a merged row holds the \<open>_x\<close> columns, the
  right component the \<open>_y\<close> columns. Its \<open>revenue\<close> is then set to \<open>price_x.fillna(0)\<close>.
\<close>

type_synonym merged_row = "full_row \<times> order_item option"

definition merged_order_items :: "full_row list \<Rightarrow> order_item list \<Rightarrow> merged_row list" where
  "merged_order_items filtered order_items =
     map (\<lambda>(l, r). (l\<lparr>revenue := Some (fillna 0 (price l))\<rparr>, r))
       (left_merge (\<lambda>l i. order_id l = i_order_id i) filtered order_items)"

subsection \<open>The RFM table (lines 144-159)\<close>

definition snapshot_date :: "full_row list \<Rightarrow> timestamp" where
  "snapshot_date filtered = Max (set (map order_purchase_timestamp filtered)) + 86400"

text \<open>One row per customer: id, recency in whole days, frequency, monetary.\<close>

definition rfm_agg :: "full_row list \<Rightarrow> merged_row list \<Rightarrow> (nat \<times> int \<times> nat \<times> rat) list" where
  "rfm_agg filtered merged =
     map (\<lambda>c. let g = map fst (group_of (\<lambda>r. customer_unique_id (fst r)) merged c)
              in (c,
                  (snapshot_date filtered - Max (set (map order_purchase_timestamp g))) div 86400,
                  length (remdups (map order_id g)),
                  col_sum (map revenue g)))
       (group_keys (\<lambda>r. customer_unique_id (fst r)) merged)"

definition build_rfm :: "full_row list \<Rightarrow> merged_row list \<Rightarrow> py_error + rfm_row list" where
  "build_rfm filtered merged =
     (let agg = rfm_agg filtered merged in
      and_then (rank_score (map (\<lambda>(c, r, f, m). r) agg)) (\<lambda>rs.
      and_then (rank_score (map (\<lambda>(c, r, f, m). f) agg)) (\<lambda>fs.
      and_then (rank_score (map (\<lambda>(c, r, f, m). m) agg)) (\<lambda>ms.
        Inr (map (\<lambda>((c, r, f, m), (rsc, fsc, msc)).
                    \<lparr> rfm_customer = c, recency = r, frequency = f, monetary = m,
                      R_score = rsc, F_score = fsc, M_score = msc \<rparr>)
               (zip agg (zip rs (zip fs ms))))))))"

text \<open>
  Tab 1 binds \<open>rfm\<close> only inside \<open>if not filtered_orders.empty\<close>; \<open>None\<close> is the unbound name.
\<close>

definition tab1_rfm :: "full_row list \<Rightarrow> order_item list \<Rightarrow> py_error + rfm_row list option" where
  "tab1_rfm filtered order_items =
     (if filtered \<noteq> []
      then and_then (build_rfm filtered (merged_order_items filtered order_items))
             (\<lambda>rfm. Inr (Some rfm))
      else Inr None)"

subsection \<open>Key Insights of tab 1 (lines 243-296)\<close>

datatype tab1_finding =
  Revenue_Concentration segment "rat option" "rat option"
| Customer_Attrition_Risk "rat option"
| Growth_Opportunity rat

text \<open>Group order of \<open>groupby('Segment')\<close>: the segment names in alphabetical order.\<close>

definition segments_sorted :: "segment list" where
  "segments_sorted =
     [Champions, Lost_Customers, Loyal_Customers, Need_Attention, Potential_Loyalists]"

record segment_row =
  sr_Segment :: segment
  sr_customers :: nat
  sr_revenue :: rat
  sr_customer_pct :: "rat option"
  sr_revenue_pct :: "rat option"

definition segment_summary :: "rfm_row list \<Rightarrow> segment_row list" where
  "segment_summary rfm =
     (let total_customers = of_nat (length rfm);
          total_revenue = sum_list (map monetary rfm)
      in map (\<lambda>s. let g = filter (\<lambda>r. rfm_segment r = s) rfm;
                       customers = length g;
                       rev = sum_list (map monetary g)
                   in \<lparr> sr_Segment = s, sr_customers = customers, sr_revenue = rev,
                        sr_customer_pct =
                          map_option (\<lambda>x. x * 100) (fdiv (of_nat customers) total_customers),
                        sr_revenue_pct = map_option (\<lambda>x. x * 100) (fdiv rev total_revenue) \<rparr>)
           (filter (\<lambda>s. s \<in> rfm_segment ` set rfm) segments_sorted))"

text \<open>
  \<open>sort_values(col, ascending=False)\<close>, as a stable sort on the negated key (pandas promises
  no order among equal keys).
\<close>

definition tab1_key_insights :: "rfm_row list option \<Rightarrow> py_error + tab1_finding list" where
  "tab1_key_insights rfm_binding =
     (case rfm_binding of
        None \<Rightarrow> Inl NameError
      | Some rfm \<Rightarrow>
          (let summary = segment_summary rfm in
           and_then (values0 (sort_key (\<lambda>r. - sr_revenue r) summary)) (\<lambda>top_segment.
             (let lost_segment = filter (\<lambda>r. sr_Segment r = Lost_Customers) summary;
                  potential_segment =
                    filter (\<lambda>r. sr_Segment r \<in> {Potential_Loyalists, Need_Attention}) summary
              in Inr ([Revenue_Concentration (sr_Segment top_segment)
                         (sr_revenue_pct top_segment) (sr_customer_pct top_segment)]
                      @ (case lost_segment of
                           [] \<Rightarrow> []
                         | l # _ \<Rightarrow> [Customer_Attrition_Risk (sr_customer_pct l)])
                      @ (if potential_segment \<noteq> []
                         then [Growth_Opportunity
                                 (col_sum (map sr_customer_pct potential_segment))]
                         else []))))))"

section \<open>Temporal insights (tab 2)\<close>

text \<open>
  \<open>daily\<close> (lines 306-313) and \<open>daily_summary\<close> (lines 371-377) are the same expression:
  group sizes by weekday name, reindexed over the seven names.
\<close>

definition daily_summary :: "full_row list \<Rightarrow> (string \<times> nat option) list" where
  "daily_summary filtered =
     reindex weekday_names
       (groupby_size (\<lambda>r. Some (dt_day_name (order_purchase_timestamp r))) filtered)"

definition hourly_summary :: "full_row list \<Rightarrow> (int \<times> nat) list" where
  "hourly_summary filtered =
     groupby_size (\<lambda>r. Some (dt_hour (order_purchase_timestamp r))) filtered"

text \<open>A monthly period is held as its ordinal, the number of months since January 1970.\<close>

definition dt_period_ordinal :: "timestamp \<Rightarrow> int" where
  "dt_period_ordinal t = (case dt_period_M t of (y, m) \<Rightarrow> (y - 1970) * 12 + (m - 1))"

definition monthly_summary :: "full_row list \<Rightarrow> (int \<times> nat) list" where
  "monthly_summary filtered =
     groupby_size (\<lambda>r. Some (dt_period_ordinal (order_purchase_timestamp r))) filtered"

definition day_type :: "full_row \<Rightarrow> string" where
  "day_type r = (if dt_dayofweek (order_purchase_timestamp r) \<ge> 5 then ''Weekend'' else ''Weekday'')"

definition day_type_summary :: "full_row list \<Rightarrow> (string \<times> nat) list" where
  "day_type_summary filtered = groupby_size (\<lambda>r. Some (day_type r)) filtered"

datatype tab2_finding =
  Peak_Transaction_Day string nat
| Peak_Operating_Hour int nat
| Weekend_Dominant
| Weekday_Dominant
| Positive_Momentum
| Demand_Slowdown

text \<open>Key Insights of tab 2 (lines 367-457), which run whether or not the window is empty.\<close>

definition tab2_key_insights :: "full_row list \<Rightarrow> py_error + tab2_finding list" where
  "tab2_key_insights filtered =
     and_then (loc_idxmax (daily_summary filtered)) (\<lambda>peak_day.
     and_then (loc_idxmax (map (\<lambda>(h, n). (h, Some n)) (hourly_summary filtered))) (\<lambda>peak_hour.
     and_then (values0 (map snd (filter (\<lambda>r. fst r = ''Weekend'') (day_type_summary filtered))))
       (\<lambda>weekend.
     and_then (values0 (map snd (filter (\<lambda>r. fst r = ''Weekday'') (day_type_summary filtered))))
       (\<lambda>weekday.
       (let monthly = monthly_summary filtered;
            n = length monthly
        in Inr ([Peak_Transaction_Day (fst peak_day) (snd peak_day),
                 Peak_Operating_Hour (fst peak_hour) (snd peak_hour),
                 (if weekend > weekday then Weekend_Dominant else Weekday_Dominant)]
                @ (if n \<ge> 2
                   then [if int (snd (monthly ! (n - 1))) - int (snd (monthly ! (n - 2))) > 0
                         then Positive_Momentum else Demand_Slowdown]
                   else [])))))))"

section \<open>Category overview (tab 3)\<close>

record category_row =
  cr_product_category_name :: nat
  cr_revenue :: rat
  cr_total_orders :: nat
  cr_product_count :: nat

text \<open>
  The \<open>groupby('product_category_name').agg(...)\<close> of lines 465-474 on a table of rows. The
  \<open>'sum'\<close> aggregation is a parameter: it maps the revenue cells of a group, in row order, to
  their float64 sum (a finite float64 is a rational), whatever the rounding of the additions.
\<close>

definition category_agg_by ::
  "(rat option list \<Rightarrow> rat) \<Rightarrow> full_row list \<Rightarrow> category_row list" where
  "category_agg_by column_sum rows =
     map (\<lambda>k. let g = group_of product_category_name rows k
              in \<lparr> cr_product_category_name = k,
                   cr_revenue = column_sum (map revenue g),
                   cr_total_orders = length (remdups (map order_id g)),
                   cr_product_count = nunique (map product_id g) \<rparr>)
       (group_keys product_category_name rows)"

text \<open>The aggregation with exact sums, used to evaluate the script on whole-number amounts.\<close>

definition category_agg :: "full_row list \<Rightarrow> category_row list" where
  "category_agg rows = category_agg_by col_sum rows"

text \<open>
  Tab 3 reads \<open>orders_full\<close>, the unfiltered join: neither the window nor \<open>filtered_orders\<close>
  occurs in lines 460-579. \<open>None\<close> is the unbound name on an empty \<open>orders_full\<close>.
\<close>

definition tab3_category_summary :: "full_row list \<Rightarrow> category_row list option" where
  "tab3_category_summary orders_full =
     (if orders_full \<noteq> [] then Some (category_agg orders_full) else None)"

text \<open>Line 548: \<open>total_revenue = category_summary['revenue'].sum()\<close>, outside the guard.\<close>

definition tab3_total_revenue :: "category_row list option \<Rightarrow> py_error + rat" where
  "tab3_total_revenue category_summary =
     (case category_summary of
        None \<Rightarrow> Inl NameError
      | Some cs \<Rightarrow> Inr (sum_list (map cr_revenue cs)))"

section \<open>Derived closed form of the quartile score\<close>

text \<open>
  Not part of the script: the score that \<open>rank_score\<close> is proved below to give the value of
  rank \<open>r\<close> among \<open>n \<ge> 2\<close> values. The quantile edges are \<open>1 + k (n - 1) / 4\<close>, so rank \<open>r\<close> lies
  in the first bin whose upper edge it does not exceed.
\<close>

definition quartile_of_rank :: "nat \<Rightarrow> nat \<Rightarrow> int" where
  "quartile_of_rank n r =
     (if 4 * (r - 1) \<le> n - 1 then 1
      else if 4 * (r - 1) \<le> 2 * (n - 1) then 2
      else if 4 * (r - 1) \<le> 3 * (n - 1) then 3
      else 4)"

section \<open>An example dataset\<close>

text \<open>
  Six orders by six customers, Monday 2017-01-02 to Saturday 2017-01-07. Order 1 has two line
  items; product 3 has no category.
\<close>

definition timestamp_of :: "int \<Rightarrow> int \<Rightarrow> int \<Rightarrow> int \<Rightarrow> int \<Rightarrow> int \<Rightarrow> timestamp" where
  "timestamp_of y m d hh mm ss = days_from_civil y m d * 86400 + hh * 3600 + mm * 60 + ss"

definition ex_customers :: "customer list" where
  "ex_customers =
     map (\<lambda>i. \<lparr>c_customer_id = i, c_customer_unique_id = i, c_customer_state = 1\<rparr>)
       [1, 2, 3, 4, 5, 6]"

definition ex_orders :: "order list" where
  "ex_orders =
     [\<lparr>o_order_id = 1, o_customer_id = 1,
       o_order_purchase_timestamp = timestamp_of 2017 1 2 10 0 0\<rparr>,
      \<lparr>o_order_id = 2, o_customer_id = 2,
       o_order_purchase_timestamp = timestamp_of 2017 1 3 15 30 0\<rparr>,
      \<lparr>o_order_id = 3, o_customer_id = 3,
       o_order_purchase_timestamp = timestamp_of 2017 1 4 8 0 0\<rparr>,
      \<lparr>o_order_id = 4, o_customer_id = 4,
       o_order_purchase_timestamp = timestamp_of 2017 1 5 8 45 0\<rparr>,
      \<lparr>o_order_id = 5, o_customer_id = 5,
       o_order_purchase_timestamp = timestamp_of 2017 1 6 23 59 59\<rparr>,
      \<lparr>o_order_id = 6, o_customer_id = 6,
       o_order_purchase_timestamp = timestamp_of 2017 1 7 0 0 0\<rparr>]"

definition ex_order_items :: "order_item list" where
  "ex_order_items =
     [\<lparr>i_order_id = 1, i_product_id = 1, i_price = 10\<rparr>,
      \<lparr>i_order_id = 1, i_product_id = 2, i_price = 20\<rparr>,
      \<lparr>i_order_id = 2, i_product_id = 2, i_price = 20\<rparr>,
      \<lparr>i_order_id = 3, i_product_id = 3, i_price = 5\<rparr>,
      \<lparr>i_order_id = 4, i_product_id = 1, i_price = 30\<rparr>,
      \<lparr>i_order_id = 5, i_product_id = 1, i_price = 40\<rparr>,
      \<lparr>i_order_id = 6, i_product_id = 2, i_price = 50\<rparr>]"

definition ex_products :: "product list" where
  "ex_products =
     [\<lparr>p_product_id = 1, p_product_category_name = Some 1\<rparr>,
      \<lparr>p_product_id = 2, p_product_category_name = Some 2\<rparr>,
      \<lparr>p_product_id = 3, p_product_category_name = None\<rparr>]"

definition ex_orders_full :: "full_row list" where
  "ex_orders_full = build_orders_full ex_customers ex_orders ex_order_items ex_products"

text \<open>The rows of the example that a window of January 2017 days keeps.\<close>

definition ex_window :: "int \<Rightarrow> int \<Rightarrow> full_row list" where
  "ex_window d1 d2 =
     filtered_orders ex_orders_full (days_from_civil 2017 1 d1) (days_from_civil 2017 1 d2)"

text \<open>A column of the RFM table that tab 1 bound (empty when it bound none).\<close>

definition rfm_column :: "(rfm_row \<Rightarrow> 'a) \<Rightarrow> py_error + rfm_row list option \<Rightarrow> 'a list" where
  "rfm_column f result = (case result of Inr (Some rfm) \<Rightarrow> map f rfm | _ \<Rightarrow> [])"

section \<open>The binning property\<close>

text \<open>
  What it means for a score column to bin a metric column of \<open>n\<close> values into quartiles by
  rank: scores 1 to 4; bin sizes \<open>\<lceil>n/4\<rceil>\<close>, \<open>\<lfloor>(n+1)/4\<rfloor>\<close>, \<open>\<lfloor>n/4\<rfloor>\<close>, \<open>\<lfloor>(n+2)/4\<rfloor>\<close>, each of them
  \<open>\<lfloor>n/4\<rfloor>\<close> or \<open>\<lceil>n/4\<rceil>\<close>; and a value that is ranked before another (smaller, or equal and
  earlier in the table) never gets the higher score.
\<close>

definition quartile_binned :: "'v::linorder list \<Rightarrow> int list \<Rightarrow> bool" where
  "quartile_binned col scores \<longleftrightarrow>
     length scores = length col
     \<and> set scores \<subseteq> {1, 2, 3, 4}
     \<and> count_list scores 1 = (length col + 3) div 4
     \<and> count_list scores 2 = (length col + 1) div 4
     \<and> count_list scores 3 = length col div 4
     \<and> count_list scores 4 = (length col + 2) div 4
     \<and> (\<forall>b \<in> {1, 2, 3, 4}. count_list scores b = length col div 4
                              \<or> count_list scores b = (length col + 3) div 4)
     \<and> (\<forall>i < length col. \<forall>j < length col.
            ranked_before col i j \<longrightarrow> scores ! i \<le> scores ! j)"

section \<open>Theorems\<close>

subsection \<open>Segment assignment\<close>

text \<open>
  C1 (as stated, refuted): the claim lists (R=3, F=3, M=1) as a Champions example. The
  script's first branch needs M at least 3, so this triple is decided by the second branch
  and is Loyal Customers.
\<close>

theorem C1_example_331_not_champions:
  "rfm_segment (scored 3 3 1) \<noteq> Champions"
  by (simp add: rfm_segment_def scored_def)

text \<open>
  C1 (amended): the segment of a row is determined by its three scores alone and equals the
  first matching entry of the priority table of section 4.4 (Lost Customers when none
  matches), for all scores; (3,3,1) is Loyal Customers, (3,1,1) Potential Loyalists,
  (2,4,4) Need Attention and (1,4,4) Lost Customers.
\<close>

theorem C1_segment_matches_priority_table:
  "rfm_segment row = first_match spec_priority_table (R_score row) (F_score row) (M_score row)
   \<and> rfm_segment (scored 3 3 1) = Loyal_Customers
   \<and> rfm_segment (scored 3 1 1) = Potential_Loyalists
   \<and> rfm_segment (scored 2 4 4) = Need_Attention
   \<and> rfm_segment (scored 1 4 4) = Lost_Customers"
  by (simp add: rfm_segment_def spec_priority_table_def scored_def)

subsection \<open>Time-window filter\<close>

lemma select_mask_filter:
  "select_mask rows (map (\<lambda>(a, b). a \<and> b) (zip (map f rows) (map g rows)))
   = filter (\<lambda>r. f r \<and> g r) rows"
  by (induction rows) (simp_all add: select_mask_def)

lemma filtered_orders_filter:
  "filtered_orders rows s e =
     filter (\<lambda>r. s \<le> dt_date (order_purchase_timestamp r)
                 \<and> dt_date (order_purchase_timestamp r) \<le> e) rows"
  unfolding filtered_orders_def Let_def by (rule select_mask_filter)

lemma dt_date_ignores_time: "0 \<le> t \<Longrightarrow> t < 86400 \<Longrightarrow> dt_date (d * 86400 + t) = d"
  by (simp add: dt_date_def)

text \<open>
  C8: for a date range with \<open>start_date \<le> end_date\<close> the filter keeps exactly the rows whose
  purchase day lies in the closed interval, in their order; the day of a timestamp does not
  depend on its time of day; and when every row lies in the interval the table comes back
  unchanged.
\<close>

theorem C8_filter_inclusive_day_window:
  assumes "start_date \<le> end_date"
  shows "filtered_orders rows start_date end_date
           = filter (\<lambda>r. start_date \<le> dt_date (order_purchase_timestamp r)
                         \<and> dt_date (order_purchase_timestamp r) \<le> end_date) rows
       \<and> (\<forall>d t. 0 \<le> t \<and> t < 86400 \<longrightarrow> dt_date (d * 86400 + t) = d)
       \<and> ((\<forall>r \<in> set rows. start_date \<le> dt_date (order_purchase_timestamp r)
                            \<and> dt_date (order_purchase_timestamp r) \<le> end_date)
            \<longrightarrow> filtered_orders rows start_date end_date = rows)"
  by (simp add: filtered_orders_filter dt_date_ignores_time)

theorem C8_filter_witness:
  "days_from_civil 2017 1 3 \<le> days_from_civil 2017 1 5
   \<and> map order_id (filtered_orders ex_orders_full
                      (days_from_civil 2017 1 3) (days_from_civil 2017 1 5)) = [2, 3, 4]
   \<and> dt_date (timestamp_of 2017 1 6 23 59 59) = days_from_civil 2017 1 6
   \<and> days_from_civil 2017 1 2 \<le> days_from_civil 2017 1 7
   \<and> filtered_orders ex_orders_full (days_from_civil 2017 1 2) (days_from_civil 2017 1 7)
       = ex_orders_full"
proof -
  have h1: "days_from_civil 2017 1 3 \<le> days_from_civil 2017 1 5" by code_simp
  have h2: "days_from_civil 2017 1 2 \<le> days_from_civil 2017 1 7" by code_simp
  have f: "map order_id
             (filter (\<lambda>r. days_from_civil 2017 1 3 \<le> dt_date (order_purchase_timestamp r)
                         \<and> dt_date (order_purchase_timestamp r) \<le> days_from_civil 2017 1 5)
                ex_orders_full) = [2, 3, 4]"
    by code_simp
  have t: "(0::int) \<le> 23 * 3600 + 59 * 60 + 59 \<and> (23 * 3600 + 59 * 60 + 59 :: int) < 86400"
    by simp
  have a: "\<forall>r \<in> set ex_orders_full.
             days_from_civil 2017 1 2 \<le> dt_date (order_purchase_timestamp r)
             \<and> dt_date (order_purchase_timestamp r) \<le> days_from_civil 2017 1 7"
    by code_simp
  from C8_filter_inclusive_day_window[OF h1, of ex_orders_full] f
  have c1: "map order_id (filtered_orders ex_orders_full
                      (days_from_civil 2017 1 3) (days_from_civil 2017 1 5)) = [2, 3, 4]"
    by simp
  from C8_filter_inclusive_day_window[OF h1, of ex_orders_full] t
  have c2: "dt_date (days_from_civil 2017 1 6 * 86400 + (23 * 3600 + 59 * 60 + 59))
            = days_from_civil 2017 1 6"
    by blast
  from C8_filter_inclusive_day_window[OF h2, of ex_orders_full] a
  have c3: "filtered_orders ex_orders_full (days_from_civil 2017 1 2) (days_from_civil 2017 1 7)
            = ex_orders_full"
    by blast
  from h1 h2 c1 c2 c3 show ?thesis by (simp add: timestamp_of_def add.assoc)
qed

subsection \<open>Group sizes and the day-of-week table\<close>

lemma set_map_filter_key: "set (List.map_filter key rows) = {k. Some k \<in> key ` set rows}"
  by (induction rows) (auto split: option.splits)

lemma set_group_keys: "set (group_keys key rows) = {k. Some k \<in> key ` set rows}"
  by (simp add: group_keys_def set_map_filter_key)

lemma distinct_group_keys: "distinct (group_keys key rows)"
  by (simp add: group_keys_def)

lemma map_of_groupby_size:
  "map_of (groupby_size key rows) k =
     (if Some k \<in> key ` set rows then Some (length (group_of key rows k)) else None)"
  by (simp add: groupby_size_def map_of_map_restrict set_group_keys restrict_map_def)

lemma set_groupby_size_fst: "fst ` set (groupby_size key rows) = {k. Some k \<in> key ` set rows}"
  by (simp add: groupby_size_def image_image set_group_keys)

lemma daily_summary_eq:
  "daily_summary filtered =
     map (\<lambda>d. (d, let n = length (filter (\<lambda>r. dt_day_name (order_purchase_timestamp r) = d)
                                     filtered)
                  in if n = 0 then None else Some n)) weekday_names"
  unfolding daily_summary_def reindex_def
  apply (rule map_cong[OF refl])
  apply (simp add: map_of_groupby_size Let_def group_of_def image_iff filter_empty_conv)
  apply auto
  done

text \<open>
  C7 (as stated, refuted): in the example week nothing was bought on a Sunday, and the
  Sunday row carries a null count, not 0: \<open>reindex\<close> is called without a fill value.
\<close>

theorem C7_absent_day_has_null_count:
  "daily_summary (ex_window 2 7) =
     [(''Monday'', Some 2), (''Tuesday'', Some 1), (''Wednesday'', Some 1),
      (''Thursday'', Some 1), (''Friday'', Some 1), (''Saturday'', Some 1),
      (''Sunday'', None)]"
  by code_simp

text \<open>
  C7 (amended): the day-of-week table has exactly the seven weekday names Monday to Sunday
  in calendar order, whichever days occur in the window; a day with transactions carries
  their number, a day with none carries a null count.
\<close>

theorem C7_daily_seven_names_null_when_absent:
  "map fst (daily_summary filtered) = weekday_names
   \<and> daily_summary filtered =
       map (\<lambda>d. (d, let n = length (filter (\<lambda>r. dt_day_name (order_purchase_timestamp r) = d)
                                       filtered)
                    in if n = 0 then None else Some n)) weekday_names"
  by (simp add: daily_summary_eq comp_def)

subsection \<open>Key Insights of tab 2 on a window of one day type\<close>

lemma set_map_filter_snd: "set (List.map_filter snd s) = {v. \<exists>k. (k, Some v) \<in> set s}"
  by (induction s) (auto split: option.splits)

lemma loc_idxmax_Inr:
  assumes "(k, Some v) \<in> set s"
  shows "\<exists>p. loc_idxmax s = Inr p"
proof -
  from assms have "v \<in> set (List.map_filter snd s)"
    by (auto simp: set_map_filter_snd)
  then obtain w ws where ws: "List.map_filter snd s = w # ws"
    by (cases "List.map_filter snd s") auto
  have "Max (set (w # ws)) \<in> set (w # ws)" by (rule Max_in) auto
  then have "Max (set (w # ws)) \<in> set (List.map_filter snd s)" using ws by simp
  then obtain k' where "(k', Some (Max (set (w # ws)))) \<in> set s"
    by (auto simp: set_map_filter_snd)
  then have "find (\<lambda>r. snd r = Some (Max (set (w # ws)))) s \<noteq> None"
    unfolding find_None_iff by (metis snd_conv)
  then show ?thesis
    by (auto simp: loc_idxmax_def ws)
qed

lemma dt_day_name_in_names: "dt_day_name t \<in> set weekday_names"
proof -
  have "nat (dt_dayofweek t) < length weekday_names"
    by (simp add: dt_dayofweek_def weekday_names_def)
  then show ?thesis unfolding dt_day_name_def by (rule nth_mem)
qed

lemma daily_idxmax_ok:
  assumes "filtered \<noteq> []"
  shows "\<exists>p. loc_idxmax (daily_summary filtered) = Inr p"
proof -
  from assms obtain r where r: "r \<in> set filtered" by (cases filtered) auto
  let ?d = "dt_day_name (order_purchase_timestamp r)"
  let ?n = "length (filter (\<lambda>x. dt_day_name (order_purchase_timestamp x) = ?d) filtered)"
  have "?n \<noteq> 0" using r by (auto simp: filter_empty_conv)
  then have "(?d, Some ?n) \<in> set (daily_summary filtered)"
    unfolding daily_summary_eq set_map image_iff Let_def
    by (intro bexI[where x = ?d]) (simp_all add: dt_day_name_in_names)
  then show ?thesis by (rule loc_idxmax_Inr)
qed

lemma hourly_idxmax_ok:
  assumes "filtered \<noteq> []"
  shows "\<exists>p. loc_idxmax (map (\<lambda>(h, n). (h, Some n)) (hourly_summary filtered)) = Inr p"
proof -
  from assms obtain r where r: "r \<in> set filtered" by (cases filtered) auto
  have "dt_hour (order_purchase_timestamp r) \<in> fst ` set (hourly_summary filtered)"
    unfolding hourly_summary_def set_groupby_size_fst using r by auto
  then obtain n where "(dt_hour (order_purchase_timestamp r), n) \<in> set (hourly_summary filtered)"
    by auto
  then have "(dt_hour (order_purchase_timestamp r), Some n)
      \<in> set (map (\<lambda>(h, n). (h, Some n)) (hourly_summary filtered))"
    by force
  then show ?thesis by (rule loc_idxmax_Inr)
qed

lemma day_type_rows_empty:
  assumes "\<forall>r \<in> set filtered. day_type r \<noteq> k"
  shows "filter (\<lambda>r. fst r = k) (day_type_summary filtered) = []"
proof -
  have "k \<notin> fst ` set (day_type_summary filtered)"
    unfolding day_type_summary_def set_groupby_size_fst using assms by auto
  then show ?thesis by (auto simp: filter_empty_conv)
qed

lemma day_type_rows_nonempty:
  assumes "r \<in> set filtered"
  shows "filter (\<lambda>x. fst x = day_type r) (day_type_summary filtered) \<noteq> []"
proof -
  have "day_type r \<in> fst ` set (day_type_summary filtered)"
    unfolding day_type_summary_def set_groupby_size_fst using assms by auto
  then show ?thesis by (force simp: filter_empty_conv)
qed

text \<open>
  C10: on every non-empty window whose transactions all fall on weekdays, or all on weekend
  days, the Key Insights of tab 2 end in \<open>IndexError\<close>: peak day and peak hour are found, then
  \<open>.values[0]\<close> reads the first element of an empty selection (the Weekend count on a weekday
  window, the Weekday count on a weekend window). No comparison is produced.
\<close>

theorem C10_one_day_type_index_error:
  assumes "filtered \<noteq> []"
    and "list_all (\<lambda>r. dt_dayofweek (order_purchase_timestamp r) < 5) filtered
       \<or> list_all (\<lambda>r. dt_dayofweek (order_purchase_timestamp r) \<ge> 5) filtered"
  shows "tab2_key_insights filtered = Inl IndexError"
proof -
  obtain pd where pd: "loc_idxmax (daily_summary filtered) = Inr pd"
    using daily_idxmax_ok[OF assms(1)] by blast
  obtain ph where ph: "loc_idxmax (map (\<lambda>(h, n). (h, Some n)) (hourly_summary filtered)) = Inr ph"
    using hourly_idxmax_ok[OF assms(1)] by blast
  from assms(1) obtain r where r: "r \<in> set filtered" by (cases filtered) auto
  from assms(2) show ?thesis
  proof
    assume wd: "list_all (\<lambda>r. dt_dayofweek (order_purchase_timestamp r) < 5) filtered"
    then have "\<forall>r \<in> set filtered. day_type r \<noteq> ''Weekend''"
      by (auto simp: list_all_iff day_type_def)
    then have "filter (\<lambda>r. fst r = ''Weekend'') (day_type_summary filtered) = []"
      by (rule day_type_rows_empty)
    then show ?thesis
      by (simp add: tab2_key_insights_def and_then_def pd ph values0_def)
  next
    assume we: "list_all (\<lambda>r. dt_dayofweek (order_purchase_timestamp r) \<ge> 5) filtered"
    then have all: "\<forall>r \<in> set filtered. day_type r = ''Weekend''"
      by (auto simp: list_all_iff day_type_def)
    then have "\<forall>r \<in> set filtered. day_type r \<noteq> ''Weekday''" by simp
    then have e: "filter (\<lambda>r. fst r = ''Weekday'') (day_type_summary filtered) = []"
      by (rule day_type_rows_empty)
    have "filter (\<lambda>x. fst x = ''Weekend'') (day_type_summary filtered) \<noteq> []"
      using day_type_rows_nonempty[OF r] all r by simp
    then obtain w ws where "filter (\<lambda>x. fst x = ''Weekend'') (day_type_summary filtered) = w # ws"
      by (cases "filter (\<lambda>x. fst x = ''Weekend'') (day_type_summary filtered)") auto
    then show ?thesis
      by (simp add: tab2_key_insights_def and_then_def pd ph values0_def e)
  qed
qed

text \<open>The Monday-to-Friday window of the example: five customers, tab 1 succeeds, tab 2 fails.\<close>

theorem C10_weekday_window_witness:
  "ex_window 2 6 \<noteq> []
   \<and> list_all (\<lambda>r. dt_dayofweek (order_purchase_timestamp r) < 5) (ex_window 2 6)
   \<and> tab2_key_insights (ex_window 2 6) = Inl IndexError"
proof -
  have h1: "ex_window 2 6 \<noteq> []" by code_simp
  have h2: "list_all (\<lambda>r. dt_dayofweek (order_purchase_timestamp r) < 5) (ex_window 2 6)"
    by code_simp
  from C10_one_day_type_index_error[OF h1 disjI1[OF h2]] h1 h2 show ?thesis by simp
qed

subsection \<open>Ranks are a permutation; the quantile edges and the bin of a rank\<close>

lemma rank_first_nth:
  assumes "i < length col"
  shows "rank_first col ! i = Suc (card {j. j < length col \<and> ranked_before col j i})"
proof -
  have "length (filter (\<lambda>j. ranked_before col j i) [0..<length col])
        = card {j. j < length col \<and> ranked_before col j i}"
    by (simp add: distinct_length_filter Int_def conj_commute)
  then show ?thesis using assms by (simp add: rank_first_def ranked_before_def)
qed

lemma length_rank_first [simp]: "length (rank_first col) = length col"
  by (simp add: rank_first_def)

lemma ranked_before_trans: "ranked_before col a b \<Longrightarrow> ranked_before col b c \<Longrightarrow> ranked_before col a c"
  by (auto simp: ranked_before_def)

lemma ranked_before_irrefl: "\<not> ranked_before col a a"
  by (simp add: ranked_before_def)

lemma ranked_before_total: "a \<noteq> b \<Longrightarrow> ranked_before col a b \<or> ranked_before col b a"
  by (auto simp: ranked_before_def)

lemma rank_first_mono:
  assumes "i < length col" "j < length col" "ranked_before col i j"
  shows "rank_first col ! i < rank_first col ! j"
proof -
  let ?S = "\<lambda>i. {k. k < length col \<and> ranked_before col k i}"
  have "?S i \<subseteq> ?S j" using assms(3) by (auto intro: ranked_before_trans)
  moreover have "i \<in> ?S j" "i \<notin> ?S i" using assms by (auto simp: ranked_before_irrefl)
  ultimately have "?S i \<subset> ?S j" by blast
  moreover have "finite (?S j)" by simp
  ultimately have "card (?S i) < card (?S j)" by (rule psubset_card_mono[rotated])
  then show ?thesis using assms by (simp add: rank_first_nth)
qed

lemma rank_first_range:
  assumes "i < length col"
  shows "1 \<le> rank_first col ! i \<and> rank_first col ! i \<le> length col"
proof -
  have "{j. j < length col \<and> ranked_before col j i} \<subseteq> {0..<length col} - {i}"
    by (auto simp: ranked_before_irrefl)
  then have "card {j. j < length col \<and> ranked_before col j i} \<le> card ({0..<length col} - {i})"
    by (intro card_mono) auto
  also have "\<dots> = length col - 1" using assms by simp
  finally show ?thesis using assms by (simp add: rank_first_nth)
qed

lemma distinct_rank_first: "distinct (rank_first col)"
proof -
  have "rank_first col ! i \<noteq> rank_first col ! j"
    if "i < length col" "j < length col" "i \<noteq> j" for i j
    using ranked_before_total[OF that(3), of col] rank_first_mono[of i col j] rank_first_mono[of j col i] that
    by fastforce
  then show ?thesis by (simp add: distinct_conv_nth)
qed

lemma set_rank_first: "set (rank_first col) = {1..length col}"
proof -
  have sub: "set (rank_first col) \<subseteq> {1..length col}"
    using rank_first_range by (fastforce simp: set_conv_nth)
  have "card (set (rank_first col)) = length col"
    using distinct_rank_first[of col] by (simp add: distinct_card)
  then have "card (set (rank_first col)) = card {1..length col}" by simp
  with sub show ?thesis by (intro card_subset_eq) auto
qed

lemma mset_rank_first: "mset (rank_first col) = mset [1..<Suc (length col)]"
proof -
  have "set (rank_first col) = set [1..<Suc (length col)]"
    by (auto simp: set_rank_first)
  with set_eq_iff_mset_eq_distinct[OF distinct_rank_first distinct_upt]
  show ?thesis by blast
qed


lemma sort_ranks:
  "sort (map of_nat (rank_first col) :: rat list) = map of_nat [1..<Suc (length col)]"
proof (rule properties_for_sort)
  show "mset (map of_nat [1..<Suc (length col)] :: rat list) = mset (map of_nat (rank_first col))"
    using mset_rank_first[of col] by (metis mset_map)
  show "sorted (map of_nat [1..<Suc (length col)] :: rat list)"
    by (simp add: sorted_map sorted_wrt_iff_nth_less del: upt_Suc)
qed

lemma quantile_ranks:
  assumes n: "length col = Suc m" and q: "0 \<le> q" "q \<le> 1"
  shows "quantile (map of_nat (rank_first col)) q = 1 + q * of_nat m"
proof -
  let ?pos = "q * of_nat m :: rat"
  let ?lo = "nat \<lfloor>?pos\<rfloor>"
  let ?s = "map of_nat [1..<Suc (Suc m)] :: rat list"
  have pos0: "0 \<le> ?pos" using q by simp
  have posn: "?pos \<le> of_nat m" using q by (simp add: mult_left_le_one_le)
  have lo_le: "of_nat ?lo \<le> ?pos" using pos0 by simp
  have "\<lfloor>?pos\<rfloor> \<le> int m" using posn by (simp add: floor_le_iff)
  then have lo_n: "?lo \<le> m" by linarith
  have nth: "?s ! i = of_nat (Suc i)" if "i < Suc m" for i
    using that by (simp del: upt_Suc)
  have unf: "quantile (map of_nat (rank_first col)) q
             = ?s ! ?lo + (?s ! (min (?lo + 1) m) - ?s ! ?lo) * (?pos - of_nat ?lo)"
    unfolding quantile_def Let_def sort_ranks length_map length_rank_first n by simp
  show ?thesis
  proof (cases "?lo < m")
    case True
    then have "min (?lo + 1) m = ?lo + 1" by simp
    moreover have "?s ! ?lo = of_nat (Suc ?lo)" using True by (intro nth) simp
    moreover have "?s ! (?lo + 1) = of_nat (Suc (?lo + 1))" using True by (intro nth) simp
    ultimately show ?thesis unfolding unf by (simp add: algebra_simps)
  next
    case False
    with lo_n have eq: "?lo = m" by simp
    then have "min (?lo + 1) m = ?lo" by simp
    moreover have "?s ! ?lo = of_nat (Suc ?lo)" using eq by (intro nth) simp
    moreover have "?pos = of_nat ?lo" using lo_le posn eq by simp
    ultimately show ?thesis unfolding unf by simp
  qed
qed

lemma upt5: "[0..<4 + 1] = [0, 1, 2, 3, 4::nat]"
  by (simp add: upt_rec)

lemma edge1: "(1 + rat_of_nat m / 4 < of_nat r) \<longleftrightarrow> m + 4 < 4 * r"
proof -
  have "(1 + rat_of_nat m / 4 < of_nat r) \<longleftrightarrow> (rat_of_nat (m + 4) < of_nat (4 * r))"
    by (auto simp: field_simps)
  then show ?thesis by (simp only: of_nat_less_iff)
qed

lemma edge2: "(1 + rat_of_nat m / 2 < of_nat r) \<longleftrightarrow> 2 * m + 4 < 4 * r"
proof -
  have "(1 + rat_of_nat m / 2 < of_nat r) \<longleftrightarrow> (rat_of_nat (2 * m + 4) < of_nat (4 * r))"
    by (auto simp: field_simps)
  then show ?thesis by (simp only: of_nat_less_iff)
qed

lemma edge3: "(1 + 3 * rat_of_nat m / 4 < of_nat r) \<longleftrightarrow> 3 * m + 4 < 4 * r"
proof -
  have "(1 + 3 * rat_of_nat m / 4 < of_nat r) \<longleftrightarrow> (rat_of_nat (3 * m + 4) < of_nat (4 * r))"
    by (auto simp: field_simps)
  then show ?thesis by (simp only: of_nat_less_iff)
qed

lemma edge4: "(1 + rat_of_nat m < of_nat r) \<longleftrightarrow> m + 1 < r"
proof -
  have "(1 + rat_of_nat m < of_nat r) \<longleftrightarrow> (rat_of_nat (m + 1) < of_nat r)"
    by (auto simp: field_simps)
  then show ?thesis by (simp only: of_nat_less_iff)
qed

lemma bins_ranks:
  assumes "length col = Suc m"
  shows "map (\<lambda>k. quantile (map of_nat (rank_first col)) (of_nat k / of_nat 4)) [0..<4 + 1]
         = [1, 1 + of_nat m / 4, 1 + of_nat m / 2, 1 + 3 * of_nat m / 4, 1 + of_nat m]"
  unfolding upt5 by (simp add: quantile_ranks[OF assms])

lemma ranks_nonempty: "col \<noteq> [] \<Longrightarrow> map rat_of_nat (rank_first col) \<noteq> []"
  by (simp add: rank_first_def)

lemma qcut_ranks:
  assumes n: "length col = Suc m" and m: "1 \<le> m"
  shows "qcut (map of_nat (rank_first col)) 4
         = Inr (map (\<lambda>r. quartile_of_rank (length col) r - 1) (rank_first col))"
proof -
  let ?bins = "[1, 1 + rat_of_nat m / 4, 1 + of_nat m / 2, 1 + 3 * of_nat m / 4, 1 + of_nat m]"
  have ne: "map rat_of_nat (rank_first col) \<noteq> []" using n by (intro ranks_nonempty) auto
  have dist: "distinct ?bins"
    using m by (simp add: field_simps) 
  have lab: "int (if rat_of_nat r = ?bins ! 0 then 1
                  else length (filter (\<lambda>b. b < of_nat r) ?bins)) - 1
             = quartile_of_rank (length col) r - 1"
    if "r \<in> set (rank_first col)" for r
  proof -
    from that have r: "1 \<le> r" "r \<le> Suc m" by (simp_all add: set_rank_first n)
    show ?thesis
    proof (cases "r = 1")
      case True
      then show ?thesis by (simp add: quartile_of_rank_def)
    next
      case False
      with r have r2: "2 \<le> r" by simp
      have one: "(1::rat) < of_nat r" using r2 by simp
      have ne1: "rat_of_nat r \<noteq> 1" using False by simp
      show ?thesis
        using r r2 unfolding quartile_of_rank_def n
        by (simp add: ne1 one edge1 edge2 edge3 edge4) arith
    qed
  qed
  have "map (\<lambda>v. int (if v = ?bins ! 0 then 1 else length (filter (\<lambda>b. b < v) ?bins)) - 1)
          (map rat_of_nat (rank_first col))
        = map (\<lambda>r. quartile_of_rank (length col) r - 1) (rank_first col)"
    unfolding map_map comp_def by (rule map_cong[OF refl]) (rule lab)
  then show ?thesis
    unfolding qcut_def Let_def bins_ranks[OF n] using ne dist by simp
qed

lemma rank_score_ok:
  assumes "2 \<le> length col"
  shows "rank_score col = Inr (map (quartile_of_rank (length col)) (rank_first col))"
proof -
  from assms obtain m where "length col = Suc m" "1 \<le> m"
    by (cases "length col") auto
  then show ?thesis
    by (simp add: rank_score_def and_then_def qcut_ranks comp_def)
qed

lemma rank_score_short:
  assumes "length col < 2"
  shows "rank_score col = Inl ValueError"
proof (cases col)
  case Nil
  then show ?thesis by (simp add: rank_score_def and_then_def qcut_def rank_first_def)
next
  case (Cons x xs)
  with assms have "length col = Suc 0" by simp
  from bins_ranks[OF this] have "\<not> distinct (map (\<lambda>k. quantile (map of_nat (rank_first col)) (of_nat k / of_nat 4)) [0..<4 + 1])"
    by simp
  then show ?thesis
    by (simp add: rank_score_def and_then_def qcut_def Let_def)
qed

subsection \<open>How many ranks fall into each quartile bin\<close>

lemma count_list_map_perm:
  assumes "mset xs = mset ys"
  shows "count_list (map f xs) b = length (filter (\<lambda>x. f x = b) ys)"
proof -
  have c: "count_list zs b = count (mset zs) b" for zs :: "'b list"
    by (induction zs) auto
  have "count_list (map f xs) b = count (image_mset f (mset xs)) b" by (simp add: c)
  also have "\<dots> = count (image_mset f (mset ys)) b" using assms by simp
  also have "\<dots> = count_list (map f ys) b" by (simp add: c)
  also have "\<dots> = length (filter (\<lambda>x. f x = b) ys)"
    by (induction ys) auto
  finally show ?thesis .
qed

lemma length_filter_interval:
  assumes "\<And>r. 1 \<le> r \<Longrightarrow> r \<le> n \<Longrightarrow> P r \<longleftrightarrow> lo \<le> r \<and> r \<le> hi"
    and "1 \<le> lo" "hi \<le> n"
  shows "length (filter P [1..<Suc n]) = Suc hi - lo"
proof -
  have "{r. P r} \<inter> set [1..<Suc n] = {lo..hi}"
    using assms by auto
  then have "length (filter P [1..<Suc n]) = card {lo..hi}"
    by (simp add: distinct_length_filter del: upt_Suc)
  then show ?thesis by simp
qed

lemma quartile_eq_1: "quartile_of_rank n r = 1 \<longleftrightarrow> 4 * (r - 1) \<le> n - 1"
  by (simp add: quartile_of_rank_def)

lemma quartile_eq_2:
  "quartile_of_rank n r = 2 \<longleftrightarrow> \<not> 4 * (r - 1) \<le> n - 1 \<and> 4 * (r - 1) \<le> 2 * (n - 1)"
  by (simp add: quartile_of_rank_def)

lemma quartile_eq_3:
  "quartile_of_rank n r = 3 \<longleftrightarrow> \<not> 4 * (r - 1) \<le> 2 * (n - 1) \<and> 4 * (r - 1) \<le> 3 * (n - 1)"
  unfolding quartile_of_rank_def by (cases "4 * (r - 1) \<le> n - 1") simp_all

lemma quartile_eq_4:
  "quartile_of_rank n r = 4 \<longleftrightarrow> \<not> 4 * (r - 1) \<le> 3 * (n - 1)"
  unfolding quartile_of_rank_def
  by (cases "4 * (r - 1) \<le> n - 1"; cases "4 * (r - 1) \<le> 2 * (n - 1)") simp_all

lemma mod4_cases:
  fixes n :: nat
  obtains q where "n = 4 * q" | q where "n = 4 * q + 1" | q where "n = 4 * q + 2"
    | q where "n = 4 * q + 3"
proof -
  have "n = 4 * (n div 4) + n mod 4" by simp
  moreover have "n mod 4 = 0 \<or> n mod 4 = 1 \<or> n mod 4 = 2 \<or> n mod 4 = 3" by linarith
  ultimately show ?thesis using that by (metis add.right_neutral)
qed

lemma quartile_count_1:
  assumes "1 \<le> n"
  shows "length (filter (\<lambda>r. quartile_of_rank n r = 1) [1..<Suc n]) = (n + 3) div 4"
proof (cases n rule: mod4_cases)
  case (1 q)
  have "length (filter (\<lambda>r. quartile_of_rank n r = 1) [1..<Suc n]) = Suc (1 * q) - 1"
  proof (rule length_filter_interval)
    fix r :: nat assume "1 \<le> r" "r \<le> n"
    then show "quartile_of_rank n r = 1 \<longleftrightarrow> 1 \<le> r \<and> r \<le> 1 * q"
      unfolding quartile_eq_1 using 1 assms by arith
  qed (use 1 assms in arith)+
  moreover have "(n + 3) div 4 = q"
    by (rule div_nat_eqI) (use 1 in simp_all)
  ultimately show ?thesis by simp
next
  case (2 q)
  have "length (filter (\<lambda>r. quartile_of_rank n r = 1) [1..<Suc n]) = Suc (1 * q + 1) - 1"
  proof (rule length_filter_interval)
    fix r :: nat assume "1 \<le> r" "r \<le> n"
    then show "quartile_of_rank n r = 1 \<longleftrightarrow> 1 \<le> r \<and> r \<le> 1 * q + 1"
      unfolding quartile_eq_1 using 2 assms by arith
  qed (use 2 assms in arith)+
  moreover have "(n + 3) div 4 = q + 1"
    by (rule div_nat_eqI) (use 2 in simp_all)
  ultimately show ?thesis by simp
next
  case (3 q)
  have "length (filter (\<lambda>r. quartile_of_rank n r = 1) [1..<Suc n]) = Suc (1 * q + 1) - 1"
  proof (rule length_filter_interval)
    fix r :: nat assume "1 \<le> r" "r \<le> n"
    then show "quartile_of_rank n r = 1 \<longleftrightarrow> 1 \<le> r \<and> r \<le> 1 * q + 1"
      unfolding quartile_eq_1 using 3 assms by arith
  qed (use 3 assms in arith)+
  moreover have "(n + 3) div 4 = q + 1"
    by (rule div_nat_eqI) (use 3 in simp_all)
  ultimately show ?thesis by simp
next
  case (4 q)
  have "length (filter (\<lambda>r. quartile_of_rank n r = 1) [1..<Suc n]) = Suc (1 * q + 1) - 1"
  proof (rule length_filter_interval)
    fix r :: nat assume "1 \<le> r" "r \<le> n"
    then show "quartile_of_rank n r = 1 \<longleftrightarrow> 1 \<le> r \<and> r \<le> 1 * q + 1"
      unfolding quartile_eq_1 using 4 assms by arith
  qed (use 4 assms in arith)+
  moreover have "(n + 3) div 4 = q + 1"
    by (rule div_nat_eqI) (use 4 in simp_all)
  ultimately show ?thesis by simp
qed

lemma quartile_count_2:
  assumes "1 \<le> n"
  shows "length (filter (\<lambda>r. quartile_of_rank n r = 2) [1..<Suc n]) = (n + 1) div 4"
proof (cases n rule: mod4_cases)
  case (1 q)
  have "length (filter (\<lambda>r. quartile_of_rank n r = 2) [1..<Suc n]) = Suc (2 * q) - Suc (1 * q)"
  proof (rule length_filter_interval)
    fix r :: nat assume "1 \<le> r" "r \<le> n"
    then show "quartile_of_rank n r = 2 \<longleftrightarrow> Suc (1 * q) \<le> r \<and> r \<le> 2 * q"
      unfolding quartile_eq_2 using 1 assms by arith
  qed (use 1 assms in arith)+
  moreover have "(n + 1) div 4 = q"
    by (rule div_nat_eqI) (use 1 in simp_all)
  ultimately show ?thesis by simp
next
  case (2 q)
  have "length (filter (\<lambda>r. quartile_of_rank n r = 2) [1..<Suc n]) = Suc (2 * q + 1) - Suc (1 * q + 1)"
  proof (rule length_filter_interval)
    fix r :: nat assume "1 \<le> r" "r \<le> n"
    then show "quartile_of_rank n r = 2 \<longleftrightarrow> Suc (1 * q + 1) \<le> r \<and> r \<le> 2 * q + 1"
      unfolding quartile_eq_2 using 2 assms by arith
  qed (use 2 assms in arith)+
  moreover have "(n + 1) div 4 = q"
    by (rule div_nat_eqI) (use 2 in simp_all)
  ultimately show ?thesis by simp
next
  case (3 q)
  have "length (filter (\<lambda>r. quartile_of_rank n r = 2) [1..<Suc n]) = Suc (2 * q + 1) - Suc (1 * q + 1)"
  proof (rule length_filter_interval)
    fix r :: nat assume "1 \<le> r" "r \<le> n"
    then show "quartile_of_rank n r = 2 \<longleftrightarrow> Suc (1 * q + 1) \<le> r \<and> r \<le> 2 * q + 1"
      unfolding quartile_eq_2 using 3 assms by arith
  qed (use 3 assms in arith)+
  moreover have "(n + 1) div 4 = q"
    by (rule div_nat_eqI) (use 3 in simp_all)
  ultimately show ?thesis by simp
next
  case (4 q)
  have "length (filter (\<lambda>r. quartile_of_rank n r = 2) [1..<Suc n]) = Suc (2 * q + 2) - Suc (1 * q + 1)"
  proof (rule length_filter_interval)
    fix r :: nat assume "1 \<le> r" "r \<le> n"
    then show "quartile_of_rank n r = 2 \<longleftrightarrow> Suc (1 * q + 1) \<le> r \<and> r \<le> 2 * q + 2"
      unfolding quartile_eq_2 using 4 assms by arith
  qed (use 4 assms in arith)+
  moreover have "(n + 1) div 4 = q + 1"
    by (rule div_nat_eqI) (use 4 in simp_all)
  ultimately show ?thesis by simp
qed

lemma quartile_count_3:
  assumes "1 \<le> n"
  shows "length (filter (\<lambda>r. quartile_of_rank n r = 3) [1..<Suc n]) = n div 4"
proof (cases n rule: mod4_cases)
  case (1 q)
  have "length (filter (\<lambda>r. quartile_of_rank n r = 3) [1..<Suc n]) = Suc (3 * q) - Suc (2 * q)"
  proof (rule length_filter_interval)
    fix r :: nat assume "1 \<le> r" "r \<le> n"
    then show "quartile_of_rank n r = 3 \<longleftrightarrow> Suc (2 * q) \<le> r \<and> r \<le> 3 * q"
      unfolding quartile_eq_3 using 1 assms by arith
  qed (use 1 assms in arith)+
  moreover have "n div 4 = q"
    by (rule div_nat_eqI) (use 1 in simp_all)
  ultimately show ?thesis by simp
next
  case (2 q)
  have "length (filter (\<lambda>r. quartile_of_rank n r = 3) [1..<Suc n]) = Suc (3 * q + 1) - Suc (2 * q + 1)"
  proof (rule length_filter_interval)
    fix r :: nat assume "1 \<le> r" "r \<le> n"
    then show "quartile_of_rank n r = 3 \<longleftrightarrow> Suc (2 * q + 1) \<le> r \<and> r \<le> 3 * q + 1"
      unfolding quartile_eq_3 using 2 assms by arith
  qed (use 2 assms in arith)+
  moreover have "n div 4 = q"
    by (rule div_nat_eqI) (use 2 in simp_all)
  ultimately show ?thesis by simp
next
  case (3 q)
  have "length (filter (\<lambda>r. quartile_of_rank n r = 3) [1..<Suc n]) = Suc (3 * q + 1) - Suc (2 * q + 1)"
  proof (rule length_filter_interval)
    fix r :: nat assume "1 \<le> r" "r \<le> n"
    then show "quartile_of_rank n r = 3 \<longleftrightarrow> Suc (2 * q + 1) \<le> r \<and> r \<le> 3 * q + 1"
      unfolding quartile_eq_3 using 3 assms by arith
  qed (use 3 assms in arith)+
  moreover have "n div 4 = q"
    by (rule div_nat_eqI) (use 3 in simp_all)
  ultimately show ?thesis by simp
next
  case (4 q)
  have "length (filter (\<lambda>r. quartile_of_rank n r = 3) [1..<Suc n]) = Suc (3 * q + 2) - Suc (2 * q + 2)"
  proof (rule length_filter_interval)
    fix r :: nat assume "1 \<le> r" "r \<le> n"
    then show "quartile_of_rank n r = 3 \<longleftrightarrow> Suc (2 * q + 2) \<le> r \<and> r \<le> 3 * q + 2"
      unfolding quartile_eq_3 using 4 assms by arith
  qed (use 4 assms in arith)+
  moreover have "n div 4 = q"
    by (rule div_nat_eqI) (use 4 in simp_all)
  ultimately show ?thesis by simp
qed

lemma quartile_count_4:
  assumes "1 \<le> n"
  shows "length (filter (\<lambda>r. quartile_of_rank n r = 4) [1..<Suc n]) = (n + 2) div 4"
proof (cases n rule: mod4_cases)
  case (1 q)
  have "length (filter (\<lambda>r. quartile_of_rank n r = 4) [1..<Suc n]) = Suc (4 * q) - Suc (3 * q)"
  proof (rule length_filter_interval)
    fix r :: nat assume "1 \<le> r" "r \<le> n"
    then show "quartile_of_rank n r = 4 \<longleftrightarrow> Suc (3 * q) \<le> r \<and> r \<le> 4 * q"
      unfolding quartile_eq_4 using 1 assms by arith
  qed (use 1 assms in arith)+
  moreover have "(n + 2) div 4 = q"
    by (rule div_nat_eqI) (use 1 in simp_all)
  ultimately show ?thesis by simp
next
  case (2 q)
  have "length (filter (\<lambda>r. quartile_of_rank n r = 4) [1..<Suc n]) = Suc (4 * q + 1) - Suc (3 * q + 1)"
  proof (rule length_filter_interval)
    fix r :: nat assume "1 \<le> r" "r \<le> n"
    then show "quartile_of_rank n r = 4 \<longleftrightarrow> Suc (3 * q + 1) \<le> r \<and> r \<le> 4 * q + 1"
      unfolding quartile_eq_4 using 2 assms by arith
  qed (use 2 assms in arith)+
  moreover have "(n + 2) div 4 = q"
    by (rule div_nat_eqI) (use 2 in simp_all)
  ultimately show ?thesis by simp
next
  case (3 q)
  have "length (filter (\<lambda>r. quartile_of_rank n r = 4) [1..<Suc n]) = Suc (4 * q + 2) - Suc (3 * q + 1)"
  proof (rule length_filter_interval)
    fix r :: nat assume "1 \<le> r" "r \<le> n"
    then show "quartile_of_rank n r = 4 \<longleftrightarrow> Suc (3 * q + 1) \<le> r \<and> r \<le> 4 * q + 2"
      unfolding quartile_eq_4 using 3 assms by arith
  qed (use 3 assms in arith)+
  moreover have "(n + 2) div 4 = q + 1"
    by (rule div_nat_eqI) (use 3 in simp_all)
  ultimately show ?thesis by simp
next
  case (4 q)
  have "length (filter (\<lambda>r. quartile_of_rank n r = 4) [1..<Suc n]) = Suc (4 * q + 3) - Suc (3 * q + 2)"
  proof (rule length_filter_interval)
    fix r :: nat assume "1 \<le> r" "r \<le> n"
    then show "quartile_of_rank n r = 4 \<longleftrightarrow> Suc (3 * q + 2) \<le> r \<and> r \<le> 4 * q + 3"
      unfolding quartile_eq_4 using 4 assms by arith
  qed (use 4 assms in arith)+
  moreover have "(n + 2) div 4 = q + 1"
    by (rule div_nat_eqI) (use 4 in simp_all)
  ultimately show ?thesis by simp
qed

lemma quartile_of_rank_range: "quartile_of_rank n r \<in> {1, 2, 3, 4}"
  by (simp add: quartile_of_rank_def)

lemma quartile_of_rank_mono: "r \<le> r' \<Longrightarrow> quartile_of_rank n r \<le> quartile_of_rank n r'"
proof -
  assume le: "r \<le> r'"
  have a: "4 * (r' - 1) \<le> k \<Longrightarrow> 4 * (r - 1) \<le> k" for k using le by simp
  show ?thesis
    unfolding quartile_of_rank_def using a by auto
qed

subsection \<open>Group sums; the RFM table on two or more customers\<close>

lemma col_sum_Cons: "col_sum (v # vs) = fillna 0 v + col_sum vs"
  by (cases v) (simp_all add: col_sum_def fillna_def)

lemma col_sum_Nil: "col_sum [] = 0"
  by (simp add: col_sum_def)

lemma sum_groups:
  fixes key :: "'a \<Rightarrow> 'k option" and f :: "'a \<Rightarrow> rat option"
  assumes "finite K" "{k. Some k \<in> key ` set rows} \<subseteq> K"
  shows "(\<Sum>k\<in>K. col_sum (map f (group_of key rows k)))
         = col_sum (map f (filter (\<lambda>r. key r \<noteq> None) rows))"
  using assms(2)
proof (induction rows)
  case Nil
  then show ?case by (simp add: group_of_def col_sum_Nil)
next
  case (Cons x rows)
  then have sub: "{k. Some k \<in> key ` set rows} \<subseteq> K" by auto
  show ?case
  proof (cases "key x")
    case None
    then have "group_of key (x # rows) k = group_of key rows k" for k
      by (simp add: group_of_def)
    then show ?thesis using Cons.IH[OF sub] None by simp
  next
    case (Some k0)
    then have k0: "k0 \<in> K" using Cons.prems by force
    have g: "col_sum (map f (group_of key (x # rows) k))
             = (if k = k0 then fillna 0 (f x) else 0) + col_sum (map f (group_of key rows k))" for k
      using Some by (simp add: group_of_def col_sum_Cons)
    have "(\<Sum>k\<in>K. col_sum (map f (group_of key (x # rows) k)))
          = (\<Sum>k\<in>K. if k = k0 then fillna 0 (f x) else 0)
            + (\<Sum>k\<in>K. col_sum (map f (group_of key rows k)))"
      by (simp add: g sum.distrib)
    also have "(\<Sum>k\<in>K. if k = k0 then fillna 0 (f x) else 0) = fillna 0 (f x)"
      using assms(1) k0 by simp
    finally show ?thesis using Cons.IH[OF sub] Some by (simp add: col_sum_Cons)
  qed
qed

lemma build_rfm_ok:
  fixes filtered merged
  defines "agg \<equiv> rfm_agg filtered merged"
  assumes n: "2 \<le> length agg"
  shows "\<exists>rfm. build_rfm filtered merged = Inr rfm
           \<and> length rfm = length agg
           \<and> map rfm_customer rfm = map fst agg
           \<and> map R_score rfm
               = map (quartile_of_rank (length agg)) (rank_first (map recency rfm))
           \<and> map F_score rfm
               = map (quartile_of_rank (length agg)) (rank_first (map frequency rfm))
           \<and> map M_score rfm
               = map (quartile_of_rank (length agg)) (rank_first (map monetary rfm))"
proof -
  let ?rc = "map (\<lambda>(c, r, f, m). r) agg"
  let ?fc = "map (\<lambda>(c, r, f, m). f) agg"
  let ?mc = "map (\<lambda>(c, r, f, m). m) agg"
  let ?q = "quartile_of_rank (length agg)"
  let ?rs = "map ?q (rank_first ?rc)"
  let ?fs = "map ?q (rank_first ?fc)"
  let ?ms = "map ?q (rank_first ?mc)"
  let ?mk = "\<lambda>((c, r, f, m), (rsc, fsc, msc)).
                      \<lparr> rfm_customer = c, recency = r, frequency = f, monetary = m,
                        R_score = rsc, F_score = fsc, M_score = msc \<rparr>"
  let ?rfm = "map ?mk (zip agg (zip ?rs (zip ?fs ?ms)))"
  have r: "rank_score ?rc = Inr ?rs" using rank_score_ok[of ?rc] n by simp
  have f: "rank_score ?fc = Inr ?fs" using rank_score_ok[of ?fc] n by simp
  have m: "rank_score ?mc = Inr ?ms" using rank_score_ok[of ?mc] n by simp
  have b: "build_rfm filtered merged = Inr ?rfm"
    unfolding build_rfm_def agg_def[symmetric] Let_def r f m and_then_def by simp
  have len: "length ?rs = length agg" "length ?fs = length agg" "length ?ms = length agg"
    by simp_all
  have cols: "map recency ?rfm = ?rc" "map frequency ?rfm = ?fc" "map monetary ?rfm = ?mc"
    "map rfm_customer ?rfm = map fst agg"
    by (auto intro!: nth_equalityI simp: split_beta)
  have sc: "map R_score ?rfm = ?rs" "map F_score ?rfm = ?fs" "map M_score ?rfm = ?ms"
    by (auto intro!: nth_equalityI simp: split_beta)
  show ?thesis
    apply (rule exI[of _ ?rfm])
    unfolding cols sc using b by simp
qed

subsection \<open>Quartile scores of a ranked column\<close>

lemma div4_floor_or_ceil:
  fixes n :: nat
  shows "((n + 1) div 4 = n div 4 \<or> (n + 1) div 4 = (n + 3) div 4)
       \<and> ((n + 2) div 4 = n div 4 \<or> (n + 2) div 4 = (n + 3) div 4)"
proof (cases n rule: mod4_cases)
  case (1 q)
  have "n div 4 = q" by (rule div_nat_eqI) (use 1 in simp_all)
  moreover have "(n + 1) div 4 = q" by (rule div_nat_eqI) (use 1 in simp_all)
  moreover have "(n + 2) div 4 = q" by (rule div_nat_eqI) (use 1 in simp_all)
  ultimately show ?thesis by (simp only: simp_thms)
next
  case (2 q)
  have "n div 4 = q" by (rule div_nat_eqI) (use 2 in simp_all)
  moreover have "(n + 1) div 4 = q" by (rule div_nat_eqI) (use 2 in simp_all)
  moreover have "(n + 2) div 4 = q" by (rule div_nat_eqI) (use 2 in simp_all)
  ultimately show ?thesis by (simp only: simp_thms)
next
  case (3 q)
  have "n div 4 = q" by (rule div_nat_eqI) (use 3 in simp_all)
  moreover have "(n + 1) div 4 = q" by (rule div_nat_eqI) (use 3 in simp_all)
  moreover have "(n + 2) div 4 = Suc q" by (rule div_nat_eqI) (use 3 in simp_all)
  moreover have "(n + 3) div 4 = Suc q" by (rule div_nat_eqI) (use 3 in simp_all)
  ultimately show ?thesis by (simp only: simp_thms)
next
  case (4 q)
  have "n div 4 = q" by (rule div_nat_eqI) (use 4 in simp_all)
  moreover have "(n + 1) div 4 = Suc q" by (rule div_nat_eqI) (use 4 in simp_all)
  moreover have "(n + 2) div 4 = Suc q" by (rule div_nat_eqI) (use 4 in simp_all)
  moreover have "(n + 3) div 4 = Suc q" by (rule div_nat_eqI) (use 4 in simp_all)
  ultimately show ?thesis by (simp only: simp_thms)
qed

lemma quartile_binned_ranks:
  assumes "1 \<le> length col"
  shows "quartile_binned col (map (quartile_of_rank (length col)) (rank_first col))"
proof -
  let ?n = "length col"
  let ?sc = "map (quartile_of_rank ?n) (rank_first col)"
  have cnt: "count_list ?sc b = length (filter (\<lambda>r. quartile_of_rank ?n r = b) [1..<Suc ?n])" for b
    by (rule count_list_map_perm) (rule mset_rank_first)
  have c1: "count_list ?sc 1 = (?n + 3) div 4" unfolding cnt by (rule quartile_count_1[OF assms])
  have c2: "count_list ?sc 2 = (?n + 1) div 4" unfolding cnt by (rule quartile_count_2[OF assms])
  have c3: "count_list ?sc 3 = ?n div 4" unfolding cnt by (rule quartile_count_3[OF assms])
  have c4: "count_list ?sc 4 = (?n + 2) div 4" unfolding cnt by (rule quartile_count_4[OF assms])
  have f1: "count_list ?sc 1 = ?n div 4 \<or> count_list ?sc 1 = (?n + 3) div 4"
    unfolding c1 by (rule disjI2) (rule refl)
  have f2: "count_list ?sc 2 = ?n div 4 \<or> count_list ?sc 2 = (?n + 3) div 4"
    unfolding c2 by (rule conjunct1[OF div4_floor_or_ceil])
  have f3: "count_list ?sc 3 = ?n div 4 \<or> count_list ?sc 3 = (?n + 3) div 4"
    unfolding c3 by (rule disjI1) (rule refl)
  have f4: "count_list ?sc 4 = ?n div 4 \<or> count_list ?sc 4 = (?n + 3) div 4"
    unfolding c4 by (rule conjunct2[OF div4_floor_or_ceil])
  have fc: "\<forall>b \<in> {1, 2, 3, 4}. count_list ?sc b = ?n div 4 \<or> count_list ?sc b = (?n + 3) div 4"
    using f1 f2 f3 f4 by blast
  have len: "length ?sc = length col" by simp
  have rng: "set ?sc \<subseteq> {1, 2, 3, 4}"
    using quartile_of_rank_range by auto
  have mono: "?sc ! i \<le> ?sc ! j" if "i < ?n" "j < ?n" "ranked_before col i j" for i j
  proof -
    have "rank_first col ! i \<le> rank_first col ! j"
      using rank_first_mono[OF that] by simp
    then show ?thesis using that by (simp add: quartile_of_rank_mono)
  qed
  show ?thesis
    unfolding quartile_binned_def using len c1 c2 c3 c4 fc rng mono by blast
qed

lemma merged_empty: "merged_order_items [] order_items = []"
  by (simp add: merged_order_items_def left_merge_def)

lemma rfm_agg_empty: "rfm_agg filtered [] = []"
  by (simp add: rfm_agg_def group_keys_def)

lemma tab1_rfm_ok:
  assumes "2 \<le> length (rfm_agg filtered (merged_order_items filtered order_items))"
  shows "\<exists>rfm. tab1_rfm filtered order_items = Inr (Some rfm)
           \<and> build_rfm filtered (merged_order_items filtered order_items) = Inr rfm"
proof -
  have "filtered \<noteq> []" using assms by (auto simp: merged_empty rfm_agg_empty)
  moreover obtain rfm where "build_rfm filtered (merged_order_items filtered order_items) = Inr rfm"
    using build_rfm_ok[OF assms] by blast
  ultimately show ?thesis by (simp add: tab1_rfm_def and_then_def)
qed

subsection \<open>Revenue by category\<close>




text \<open>
  With exact sums (\<open>category_agg\<close>) the revenue column of the category table adds up to the
  revenue of the rows whose category is not null. This regroups the additions, so it is a
  fact about exact amounts, not about float64 sums of arbitrary amounts.
\<close>

lemma category_revenue_total_exact:
  "sum_list (map cr_revenue (category_agg rows))
   = col_sum (map revenue (filter (\<lambda>r. product_category_name r \<noteq> None) rows))"
proof -
  have "sum_list (map cr_revenue (category_agg rows))
        = sum_list (map (\<lambda>k. col_sum (map revenue (group_of product_category_name rows k)))
                      (group_keys product_category_name rows))"
    by (simp add: category_agg_def category_agg_by_def comp_def Let_def)
  also have "\<dots> = (\<Sum>k\<in>set (group_keys product_category_name rows).
                      col_sum (map revenue (group_of product_category_name rows k)))"
    by (rule sum_list_distinct_conv_sum_set) (rule distinct_group_keys)
  also have "\<dots> = col_sum (map revenue (filter (\<lambda>r. product_category_name r \<noteq> None) rows))"
    by (rule sum_groups[OF finite_set]) (simp add: set_group_keys)
  finally show ?thesis .
qed


subsection \<open>Quartile binning of the RFM table\<close>

text \<open>
  C2 (as stated, refuted): the six customers of the example week get R scores with bin sizes
  2, 1, 1, 2. Sending the two extra customers to the earliest bins would give 2, 2, 1, 1.
\<close>

theorem C2_extra_customers_not_in_earliest_bins:
  "rfm_column R_score (tab1_rfm (ex_window 2 7) ex_order_items) = [4, 4, 3, 2, 1, 1]
   \<and> map (count_list (rfm_column R_score (tab1_rfm (ex_window 2 7) ex_order_items)))
         [1, 2, 3, 4] = [2, 1, 1, 2]"
  by code_simp

text \<open>
  C2 (amended): on every window with \<open>n \<ge> 4\<close> customers (rows of the RFM aggregation) the RFM
  table is built without an exception and each of the R, F and M score columns bins its
  metric into quartiles by rank: scores in 1..4, every bin of size \<open>\<lfloor>n/4\<rfloor>\<close> or \<open>\<lceil>n/4\<rceil>\<close>, equal
  values ordered by first occurrence, and bin sizes \<open>\<lceil>n/4\<rceil>\<close>, \<open>\<lfloor>(n+1)/4\<rfloor>\<close>, \<open>\<lfloor>n/4\<rfloor>\<close>, \<open>\<lfloor>(n+2)/4\<rfloor>\<close> for
  scores 1, 2, 3, 4; so the extra customers go to bin 1, then bin 4, then bin 2.
\<close>

theorem C2_quartile_bins_by_rank:
  assumes "4 \<le> length (rfm_agg filtered (merged_order_items filtered order_items))"
  shows "\<exists>rfm. tab1_rfm filtered order_items = Inr (Some rfm)
           \<and> length rfm = length (rfm_agg filtered (merged_order_items filtered order_items))
           \<and> quartile_binned (map recency rfm) (map R_score rfm)
           \<and> quartile_binned (map frequency rfm) (map F_score rfm)
           \<and> quartile_binned (map monetary rfm) (map M_score rfm)"
proof -
  let ?m = "merged_order_items filtered order_items"
  let ?n = "length (rfm_agg filtered ?m)"
  from assms have n2: "2 \<le> ?n" by simp
  from build_rfm_ok[OF n2] obtain rfm where
      b: "build_rfm filtered ?m = Inr rfm" and len: "length rfm = ?n"
      and r: "map R_score rfm = map (quartile_of_rank ?n) (rank_first (map recency rfm))"
      and f: "map F_score rfm = map (quartile_of_rank ?n) (rank_first (map frequency rfm))"
      and m: "map M_score rfm = map (quartile_of_rank ?n) (rank_first (map monetary rfm))"
    by blast
  from tab1_rfm_ok[OF n2] b have t: "tab1_rfm filtered order_items = Inr (Some rfm)" by auto
  have n1: "1 \<le> length rfm" using len assms by simp
  have "quartile_binned (map recency rfm) (map R_score rfm)"
    using quartile_binned_ranks[of "map recency rfm"] n1 r len by simp
  moreover have "quartile_binned (map frequency rfm) (map F_score rfm)"
    using quartile_binned_ranks[of "map frequency rfm"] n1 f len by simp
  moreover have "quartile_binned (map monetary rfm) (map M_score rfm)"
    using quartile_binned_ranks[of "map monetary rfm"] n1 m len by simp
  ultimately show ?thesis using t len by blast
qed

theorem C2_six_customers_witness:
  "4 \<le> length (rfm_agg (ex_window 2 7) (merged_order_items (ex_window 2 7) ex_order_items))
   \<and> (\<exists>rfm. tab1_rfm (ex_window 2 7) ex_order_items = Inr (Some rfm)
           \<and> length rfm
               = length (rfm_agg (ex_window 2 7)
                          (merged_order_items (ex_window 2 7) ex_order_items))
           \<and> quartile_binned (map recency rfm) (map R_score rfm)
           \<and> quartile_binned (map frequency rfm) (map F_score rfm)
           \<and> quartile_binned (map monetary rfm) (map M_score rfm))"
proof -
  have h: "4 \<le> length (rfm_agg (ex_window 2 7)
                           (merged_order_items (ex_window 2 7) ex_order_items))"
    by code_simp
  from C2_quartile_bins_by_rank[OF h] h show ?thesis by blast
qed

lemma quartile_small:
  assumes "n = 2 \<or> n = 3" "1 \<le> r" "r \<le> n"
  shows "quartile_of_rank n r = (if r = 1 then 1 else if r = n then 4 else 2)"
  using assms unfolding quartile_of_rank_def by auto

lemma small_scores:
  assumes "length col = 2 \<or> length col = 3"
  shows "map (quartile_of_rank (length col)) (rank_first col)
         = map (\<lambda>r. if r = 1 then 1 else if r = length col then 4 else 2) (rank_first col)"
proof (rule map_cong[OF refl])
  fix r assume "r \<in> set (rank_first col)"
  then have "1 \<le> r" "r \<le> length col" by (simp_all add: set_rank_first)
  with assms show "quartile_of_rank (length col) r
                   = (if r = 1 then 1 else if r = length col then 4 else 2)"
    by (rule quartile_small)
qed

text \<open>
  C9 (as stated, refuted): the window of 2017-01-03 alone is not empty and holds one
  customer; the quantile edges of a single rank coincide and \<open>qcut\<close> raises \<open>ValueError\<close>.
  The script has no fallback.
\<close>

theorem C9_single_customer_raises:
  "ex_window 3 3 \<noteq> []
   \<and> length (rfm_agg (ex_window 3 3) (merged_order_items (ex_window 3 3) ex_order_items)) = 1
   \<and> tab1_rfm (ex_window 3 3) ex_order_items = Inl ValueError"
  by code_simp

text \<open>
  C9 (amended): on every window with two or three customers the RFM table is built without
  an exception, by the same quantile binning as for larger windows: the customer of rank 1
  in a metric gets score 1, the customer of the highest rank score 4, and the middle one of
  three score 2.
\<close>

theorem C9_two_or_three_customers_binned:
  assumes "length (rfm_agg filtered (merged_order_items filtered order_items)) = 2
         \<or> length (rfm_agg filtered (merged_order_items filtered order_items)) = 3"
  shows "\<exists>rfm. tab1_rfm filtered order_items = Inr (Some rfm)
           \<and> length rfm = length (rfm_agg filtered (merged_order_items filtered order_items))
           \<and> map R_score rfm
               = map (\<lambda>r. if r = 1 then 1 else if r = length rfm then 4 else 2)
                   (rank_first (map recency rfm))
           \<and> map F_score rfm
               = map (\<lambda>r. if r = 1 then 1 else if r = length rfm then 4 else 2)
                   (rank_first (map frequency rfm))
           \<and> map M_score rfm
               = map (\<lambda>r. if r = 1 then 1 else if r = length rfm then 4 else 2)
                   (rank_first (map monetary rfm))"
proof -
  let ?m = "merged_order_items filtered order_items"
  let ?n = "length (rfm_agg filtered ?m)"
  from assms have n2: "2 \<le> ?n" by auto
  from build_rfm_ok[OF n2] obtain rfm where
      b: "build_rfm filtered ?m = Inr rfm" and len: "length rfm = ?n"
      and r: "map R_score rfm = map (quartile_of_rank ?n) (rank_first (map recency rfm))"
      and f: "map F_score rfm = map (quartile_of_rank ?n) (rank_first (map frequency rfm))"
      and m: "map M_score rfm = map (quartile_of_rank ?n) (rank_first (map monetary rfm))"
    by blast
  from tab1_rfm_ok[OF n2] b have t: "tab1_rfm filtered order_items = Inr (Some rfm)" by auto
  have s: "length rfm = 2 \<or> length rfm = 3" using assms len by simp
  have "map R_score rfm = map (\<lambda>r. if r = 1 then 1 else if r = length rfm then 4 else 2)
                   (rank_first (map recency rfm))"
    using small_scores[of "map recency rfm"] s r len by simp
  moreover have "map F_score rfm = map (\<lambda>r. if r = 1 then 1 else if r = length rfm then 4 else 2)
                   (rank_first (map frequency rfm))"
    using small_scores[of "map frequency rfm"] s f len by simp
  moreover have "map M_score rfm = map (\<lambda>r. if r = 1 then 1 else if r = length rfm then 4 else 2)
                   (rank_first (map monetary rfm))"
    using small_scores[of "map monetary rfm"] s m len by simp
  ultimately show ?thesis using t len by blast
qed

theorem C9_two_customers_witness:
  "length (rfm_agg (ex_window 2 3) (merged_order_items (ex_window 2 3) ex_order_items)) = 2
   \<and> (\<exists>rfm. tab1_rfm (ex_window 2 3) ex_order_items = Inr (Some rfm)
           \<and> length rfm
               = length (rfm_agg (ex_window 2 3)
                          (merged_order_items (ex_window 2 3) ex_order_items)))"
proof -
  have h: "length (rfm_agg (ex_window 2 3)
                     (merged_order_items (ex_window 2 3) ex_order_items)) = 2"
    by code_simp
  from C9_two_or_three_customers_binned[OF disjI1[OF h]] h show ?thesis by blast
qed

subsection \<open>Evaluations on the example dataset\<close>

text \<open>
  C3 (code defect): in the window of 2017-01-02 to 2017-01-07 customer 1 has one order with
  two line items, priced 10 and 20, so the revenue of the customer's enriched rows sums to
  30. The RFM table reports a monetary value of 60: the KPI block merges the filtered rows,
  which already are one row per line item, with the line items once more, so each of the
  two rows of the order is paired with both items.
\<close>

theorem C3_remerge_doubles_monetary:
  "rfm_column rfm_customer (tab1_rfm (ex_window 2 7) ex_order_items) = [1, 2, 3, 4, 5, 6]
   \<and> rfm_column monetary (tab1_rfm (ex_window 2 7) ex_order_items) = [60, 20, 5, 30, 40, 50]
   \<and> length (merged_order_items (ex_window 2 7) ex_order_items) = 9
   \<and> length (ex_window 2 7) = 7
   \<and> col_sum (map revenue (filter (\<lambda>r. customer_unique_id r = Some 1) (ex_window 2 7))) = 30"
  by code_simp

text \<open>
  C5 (code defect): with the window 2017-01-03 to 2017-01-07 order 1 is filtered out, tab 1
  and tab 2 run without an exception, and the category table of tab 3 is still the one of
  the whole dataset (revenue 80 and 90, three orders each) and not the aggregation of the
  filtered rows (revenue 70 and 70, two orders each).
\<close>

theorem C5_category_summary_ignores_window:
  "map order_id (ex_window 3 7) = [2, 3, 4, 5, 6]
   \<and> tab3_category_summary ex_orders_full =
       Some [\<lparr>cr_product_category_name = 1, cr_revenue = 80, cr_total_orders = 3,
               cr_product_count = 1\<rparr>,
             \<lparr>cr_product_category_name = 2, cr_revenue = 90, cr_total_orders = 3,
               cr_product_count = 1\<rparr>]
   \<and> category_agg (ex_window 3 7) =
       [\<lparr>cr_product_category_name = 1, cr_revenue = 70, cr_total_orders = 2,
          cr_product_count = 1\<rparr>,
        \<lparr>cr_product_category_name = 2, cr_revenue = 70, cr_total_orders = 2,
          cr_product_count = 1\<rparr>]
   \<and> and_then (tab1_rfm (ex_window 3 7) ex_order_items) tab1_key_insights =
       Inr [Revenue_Concentration Lost_Customers (Some (1800 / 29)) (Some 40),
            Customer_Attrition_Risk (Some 40), Growth_Opportunity 60]
   \<and> tab2_key_insights (ex_window 3 7) =
       Inr [Peak_Transaction_Day ''Tuesday'' 1, Peak_Operating_Hour 8 2, Weekday_Dominant]"
  by code_simp

text \<open>
  C6 (code defect): all orders of the example are in January 2017. With the window February
  2017 no row is kept; tab 1 then leaves \<open>rfm\<close> unbound and its Key Insights, which are
  outside the emptiness guard, raise \<open>NameError\<close>; the Key Insights of tab 2 would raise on
  the all-null day-of-week table; and the category table of tab 3 is not empty.
\<close>

theorem C6_empty_window_raises:
  "filtered_orders ex_orders_full (days_from_civil 2017 2 1) (days_from_civil 2017 2 28) = []
   \<and> tab1_rfm (filtered_orders ex_orders_full (days_from_civil 2017 2 1)
                 (days_from_civil 2017 2 28)) ex_order_items = Inr None
   \<and> and_then (tab1_rfm (filtered_orders ex_orders_full (days_from_civil 2017 2 1)
                           (days_from_civil 2017 2 28)) ex_order_items) tab1_key_insights
       = Inl NameError
   \<and> tab2_key_insights (filtered_orders ex_orders_full (days_from_civil 2017 2 1)
                          (days_from_civil 2017 2 28)) = Inl ValueError
   \<and> tab3_total_revenue (tab3_category_summary ex_orders_full) = Inr 170"
  by code_simp

end
